theory Spec2Isabelle
  imports Main "HOL-Library.AList" "HOL-Library.Sublist"
begin

section \<open>The library catalogue of \<^verbatim>\<open>library.py\<close>\<close>

text \<open>
  The three dataclasses become records, the \<^verbatim>\<open>Library\<close> object becomes a record of
  its four attributes, and every method becomes a function from the state before the
  call to the outcome paired with the state after it. The state is returned on failure
  too, because a method may assign to a field before it raises.

  Python's \<^verbatim>\<open>int\<close> is \<^typ>\<open>int\<close>. A \<^verbatim>\<open>date\<close> is its proleptic ordinal, an
  \<^typ>\<open>int\<close>, so that adding a \<^verbatim>\<open>timedelta\<close> of days is addition and comparison of
  dates is comparison of numbers; the clock read by \<^verbatim>\<open>date.today()\<close> is a parameter
  \<open>now\<close> of every function that reads it, and is taken to lie at least
  \<^verbatim>\<open>LOAN_DAYS\<close> before \<^verbatim>\<open>date.max\<close>. A \<^verbatim>\<open>str\<close> is the list of its
  code points, and \<^verbatim>\<open>str.lower\<close>, a function of Python and not of this program, is
  a parameter \<open>lower\<close> of the functions that call it.
\<close>

type_synonym date = int

type_synonym str = "nat list"

subsection \<open>Failures\<close>

text \<open>
  Every failure of the source is a \<^verbatim>\<open>ValueError\<close>; the raise sites differ by their
  message only. One constructor stands for each message, carrying the value the message
  interpolates.
\<close>

datatype error =
    UserExists int               \<comment> \<open>\<^verbatim>\<open>User with id {user_id} already exists.\<close>\<close>
  | UserNotFound int             \<comment> \<open>\<^verbatim>\<open>User with id {user_id} not found.\<close>\<close>
  | BookExists int               \<comment> \<open>\<^verbatim>\<open>Book with id {book_id} already exists.\<close>\<close>
  | TotalCopiesNotPositive       \<comment> \<open>\<^verbatim>\<open>total_copies must be positive.\<close>\<close>
  | BookNotFound int             \<comment> \<open>\<^verbatim>\<open>Book with id {book_id} not found.\<close>\<close>
  | TotalLessThanBorrowed        \<comment> \<open>\<^verbatim>\<open>total_copies less than borrowed count.\<close>\<close>
  | NoAvailableCopies str     \<comment> \<open>\<^verbatim>\<open>No available copies for '{title}'.\<close>\<close>
  | AllCopiesInLibrary str    \<comment> \<open>\<^verbatim>\<open>All copies of '{title}' are already in library.\<close>\<close>
  | BookNotAvailable str      \<comment> \<open>\<^verbatim>\<open>Book '{title}' is not available.\<close>\<close>
  | RecordNotFound int           \<comment> \<open>\<^verbatim>\<open>Borrow record with id {record_id} not found.\<close>\<close>
  | RecordAlreadyReturned        \<comment> \<open>\<^verbatim>\<open>Book already returned for this record.\<close>\<close>
  | BookNoLongerExists           \<comment> \<open>\<^verbatim>\<open>Book no longer exists in catalog.\<close>\<close>

text \<open>
  The specification names six kinds of failure. \<open>kind\<close> records which kind it gives to
  each raise site of the source.
\<close>

datatype error_kind =
  NotFound | DuplicateKey | InvalidArgument | Unavailable | AlreadyReturned | InvariantViolation

fun kind :: "error \<Rightarrow> error_kind" where
  "kind (UserExists _) = DuplicateKey"
| "kind (UserNotFound _) = NotFound"
| "kind (BookExists _) = DuplicateKey"
| "kind TotalCopiesNotPositive = InvalidArgument"
| "kind (BookNotFound _) = NotFound"
| "kind TotalLessThanBorrowed = InvalidArgument"
| "kind (NoAvailableCopies _) = InvariantViolation"
| "kind (AllCopiesInLibrary _) = InvariantViolation"
| "kind (BookNotAvailable _) = Unavailable"
| "kind (RecordNotFound _) = NotFound"
| "kind RecordAlreadyReturned = AlreadyReturned"
| "kind BookNoLongerExists = NotFound"

subsection \<open>Domain model\<close>

record user =
  user_id :: int
  name :: str
  email :: str

record book =
  book_id :: int
  title :: str
  author :: str
  category :: str
  total_copies :: int
  available_copies :: int

text \<open>
  The fields \<^verbatim>\<open>user_id\<close> and \<^verbatim>\<open>book_id\<close> of a \<^verbatim>\<open>BorrowRecord\<close> are written
  \<open>r_user_id\<close> and \<open>r_book_id\<close>, apart from the fields of the same name above.
\<close>

record borrow_record =
  record_id :: int
  r_user_id :: int
  r_book_id :: int
  borrow_date :: date
  due_date :: date
  return_date :: "date option"

definition is_available :: "book \<Rightarrow> bool" where
  "is_available b = (available_copies b > 0)"

definition borrow_copy :: "book \<Rightarrow> error + book" where
  "borrow_copy b =
     (if available_copies b \<le> 0 then Inl (NoAvailableCopies (title b))
      else Inr (b\<lparr>available_copies := available_copies b - 1\<rparr>))"

definition return_copy :: "book \<Rightarrow> error + book" where
  "return_copy b =
     (if available_copies b \<ge> total_copies b then Inl (AllCopiesInLibrary (title b))
      else Inr (b\<lparr>available_copies := available_copies b + 1\<rparr>))"

text \<open>\<^verbatim>\<open>x or date.today()\<close>: a date is never falsy, so only \<^verbatim>\<open>None\<close> reads the clock.\<close>

definition or_today :: "date \<Rightarrow> date option \<Rightarrow> date" where
  "or_today now d = (case d of None \<Rightarrow> now | Some x \<Rightarrow> x)"

definition mark_returned :: "date \<Rightarrow> date option \<Rightarrow> borrow_record \<Rightarrow> borrow_record" where
  "mark_returned now d r = r\<lparr>return_date := Some (or_today now d)\<rparr>"

definition is_overdue :: "date \<Rightarrow> date option \<Rightarrow> borrow_record \<Rightarrow> bool" where
  "is_overdue now today r =
     (if return_date r \<noteq> None then False else or_today now today > due_date r)"

subsection \<open>The library and its dictionaries\<close>

text \<open>
  A Python \<^verbatim>\<open>dict\<close> keeps its keys in insertion order, and the listing methods iterate
  over \<^verbatim>\<open>values()\<close>, so each dictionary is an association list: \<^verbatim>\<open>k in d\<close> and
  \<^verbatim>\<open>d[k]\<close> are \<^const>\<open>map_of\<close>, \<^verbatim>\<open>d[k] = v\<close> is \<^const>\<open>AList.update\<close> (a present key
  keeps its place, a new one goes to the end), \<^verbatim>\<open>del d[k]\<close> is \<^const>\<open>AList.delete\<close>
  and \<^verbatim>\<open>d.values()\<close> is \<open>map snd\<close>. Assigning to a field of an object held in a
  dictionary is an update at the object's key.
\<close>

record library =
  users :: "(int \<times> user) list"
  books :: "(int \<times> book) list"
  records :: "(int \<times> borrow_record) list"
  next_record_id :: int

definition LOAN_DAYS :: int where
  "LOAN_DAYS = 14"

definition library_init :: library where
  "library_init = \<lparr>users = [], books = [], records = [], next_record_id = 1\<rparr>"

subsection \<open>User management\<close>

definition add_user :: "int \<Rightarrow> str \<Rightarrow> str \<Rightarrow> library \<Rightarrow> (error + user) \<times> library" where
  "add_user uid nm em s =
     (if map_of (users s) uid \<noteq> None then (Inl (UserExists uid), s)
      else
        let u = \<lparr>user_id = uid, name = nm, email = em\<rparr>
        in (Inr u, s\<lparr>users := AList.update uid u (users s)\<rparr>))"

definition get_user :: "int \<Rightarrow> library \<Rightarrow> error + user" where
  "get_user uid s =
     (case map_of (users s) uid of
        None \<Rightarrow> Inl (UserNotFound uid)
      | Some u \<Rightarrow> Inr u)"

subsection \<open>Book management\<close>

definition add_book ::
  "int \<Rightarrow> str \<Rightarrow> str \<Rightarrow> str \<Rightarrow> int \<Rightarrow> library \<Rightarrow> (error + book) \<times> library" where
  "add_book bid t a c n s =
     (if map_of (books s) bid \<noteq> None then (Inl (BookExists bid), s)
      else if n \<le> 0 then (Inl TotalCopiesNotPositive, s)
      else
        let b = \<lparr>book_id = bid, title = t, author = a, category = c,
                 total_copies = n, available_copies = n\<rparr>
        in (Inr b, s\<lparr>books := AList.update bid b (books s)\<rparr>))"

text \<open>
  \<^verbatim>\<open>update_book\<close> assigns to the fields of the stored object one after the other.
  \<open>set_book\<close> is the catalogue with the object at \<open>bid\<close> in the state the assignments
  executed so far have left it in; it is what remains when the method raises.
\<close>

definition set_book :: "int \<Rightarrow> book \<Rightarrow> library \<Rightarrow> library" where
  "set_book bid b s = s\<lparr>books := AList.update bid b (books s)\<rparr>"

definition update_book ::
  "int \<Rightarrow> str option \<Rightarrow> str option \<Rightarrow> str option \<Rightarrow> int option \<Rightarrow> library
     \<Rightarrow> (error + book) \<times> library" where
  "update_book bid t a c n s =
     (case map_of (books s) bid of
        None \<Rightarrow> (Inl (BookNotFound bid), s)
      | Some b0 \<Rightarrow>
          let b1 = (case t of None \<Rightarrow> b0 | Some x \<Rightarrow> b0\<lparr>title := x\<rparr>);
              b2 = (case a of None \<Rightarrow> b1 | Some x \<Rightarrow> b1\<lparr>author := x\<rparr>);
              b3 = (case c of None \<Rightarrow> b2 | Some x \<Rightarrow> b2\<lparr>category := x\<rparr>)
          in (case n of
                None \<Rightarrow> (Inr b3, set_book bid b3 s)
              | Some m \<Rightarrow>
                  if m < total_copies b3 - available_copies b3
                  then (Inl TotalLessThanBorrowed, set_book bid b3 s)
                  else
                    let diff = m - total_copies b3;
                        b4 = b3\<lparr>total_copies := m\<rparr>;
                        b5 = b4\<lparr>available_copies := available_copies b4 + diff\<rparr>;
                        b6 = (if available_copies b5 < 0 then b5\<lparr>available_copies := 0\<rparr> else b5)
                    in (Inr b6, set_book bid b6 s)))"

definition delete_book :: "int \<Rightarrow> library \<Rightarrow> (error + unit) \<times> library" where
  "delete_book bid s =
     (if map_of (books s) bid = None then (Inl (BookNotFound bid), s)
      else (Inr (), s\<lparr>books := AList.delete bid (books s)\<rparr>))"

subsection \<open>Search and listing\<close>

text \<open>
  \<^verbatim>\<open>str.lower\<close> belongs to Python, not to this program, and it is not a map over the
  characters (a capital sigma is lowered by its context). The search takes it as the
  parameter \<open>lower\<close>; \<^verbatim>\<open>x in y\<close> on strings holds when \<open>x\<close> is a contiguous part of
  \<open>y\<close>, which is \<^const>\<open>sublist\<close>.

  One filter of \<^verbatim>\<open>search_books\<close>: \<^verbatim>\<open>if f and f.lower() not in field.lower(): continue\<close>.
  The filter is skipped when it is \<^verbatim>\<open>None\<close> or the empty str, both falsy.
\<close>

definition rejects :: "(str \<Rightarrow> str) \<Rightarrow> str option \<Rightarrow> str \<Rightarrow> bool" where
  "rejects lower f field =
     (case f of
        None \<Rightarrow> False
      | Some x \<Rightarrow> x \<noteq> [] \<and> \<not> sublist (lower x) (lower field))"

fun search_loop ::
  "(str \<Rightarrow> str) \<Rightarrow> str option \<Rightarrow> str option \<Rightarrow> str option \<Rightarrow> book list \<Rightarrow> book list
     \<Rightarrow> book list" where
  "search_loop lower t a c [] results = results"
| "search_loop lower t a c (b # bs) results =
     (if rejects lower t (title b) then search_loop lower t a c bs results
      else if rejects lower a (author b) then search_loop lower t a c bs results
      else if rejects lower c (category b) then search_loop lower t a c bs results
      else search_loop lower t a c bs (results @ [b]))"

definition search_books ::
  "(str \<Rightarrow> str) \<Rightarrow> str option \<Rightarrow> str option \<Rightarrow> str option \<Rightarrow> library \<Rightarrow> book list" where
  "search_books lower t a c s = search_loop lower t a c (map snd (books s)) []"

definition list_all_books :: "library \<Rightarrow> book list" where
  "list_all_books s = map snd (books s)"

definition list_available_books :: "library \<Rightarrow> book list" where
  "list_available_books s = filter is_available (map snd (books s))"

subsection \<open>Borrowing and returning\<close>

definition borrow_book :: "date \<Rightarrow> int \<Rightarrow> int \<Rightarrow> library \<Rightarrow> (error + borrow_record) \<times> library" where
  "borrow_book now uid bid s =
     (case get_user uid s of
        Inl e \<Rightarrow> (Inl e, s)
      | Inr u \<Rightarrow>
          (case map_of (books s) bid of
             None \<Rightarrow> (Inl (BookNotFound bid), s)
           | Some b \<Rightarrow>
               if \<not> is_available b then (Inl (BookNotAvailable (title b)), s)
               else
                 (case borrow_copy b of
                    Inl e \<Rightarrow> (Inl e, s)
                  | Inr b' \<Rightarrow>
                      let s1 = set_book bid b' s;
                          today = now;
                          due = today + LOAN_DAYS;
                          r = \<lparr>record_id = next_record_id s1, r_user_id = user_id u,
                               r_book_id = book_id b', borrow_date = today, due_date = due,
                               return_date = None\<rparr>;
                          s2 = s1\<lparr>records := AList.update (next_record_id s1) r (records s1)\<rparr>;
                          s3 = s2\<lparr>next_record_id := next_record_id s2 + 1\<rparr>
                      in (Inr r, s3))))"

definition return_book :: "date \<Rightarrow> int \<Rightarrow> library \<Rightarrow> (error + borrow_record) \<times> library" where
  "return_book now rid s =
     (case map_of (records s) rid of
        None \<Rightarrow> (Inl (RecordNotFound rid), s)
      | Some r \<Rightarrow>
          if return_date r \<noteq> None then (Inl RecordAlreadyReturned, s)
          else
            (case map_of (books s) (r_book_id r) of
               None \<Rightarrow> (Inl BookNoLongerExists, s)
             | Some b \<Rightarrow>
                 (case return_copy b of
                    Inl e \<Rightarrow> (Inl e, s)
                  | Inr b' \<Rightarrow>
                      let s1 = set_book (r_book_id r) b' s;
                          r' = mark_returned now None r
                      in (Inr r', s1\<lparr>records := AList.update rid r' (records s1)\<rparr>))))"

definition list_user_borrowed_books :: "int \<Rightarrow> library \<Rightarrow> error + borrow_record list" where
  "list_user_borrowed_books uid s =
     (case get_user uid s of
        Inl e \<Rightarrow> Inl e
      | Inr _ \<Rightarrow>
          Inr (filter (\<lambda>r. r_user_id r = uid \<and> return_date r = None) (map snd (records s))))"

definition list_overdue_records :: "date \<Rightarrow> date option \<Rightarrow> library \<Rightarrow> borrow_record list" where
  "list_overdue_records now today s = filter (is_overdue now today) (map snd (records s))"

subsection \<open>Calls and reachable states\<close>

text \<open>
  A call of a public method with its arguments, what a call gives back, and the
  function that runs a call on a state when the clock shows \<open>now\<close>. The methods that
  only read return the state they were given.
\<close>

datatype call =
    AddUser int str str
  | GetUser int
  | AddBook int str str str int
  | UpdateBook int "str option" "str option" "str option" "int option"
  | DeleteBook int
  | SearchBooks "str option" "str option" "str option"
  | ListAllBooks
  | ListAvailableBooks
  | BorrowBook int int
  | ReturnBook int
  | ListUserBorrowedBooks int
  | ListOverdueRecords "date option"

datatype outcome =
    OUser user
  | OBook book
  | ONone
  | OBooks "book list"
  | ORecord borrow_record
  | ORecords "borrow_record list"

definition lift :: "('a \<Rightarrow> outcome) \<Rightarrow> (error + 'a) \<times> library \<Rightarrow> (error + outcome) \<times> library" where
  "lift f p = (map_sum id f (fst p), snd p)"

fun perform :: "(str \<Rightarrow> str) \<Rightarrow> date \<Rightarrow> call \<Rightarrow> library \<Rightarrow> (error + outcome) \<times> library" where
  "perform lower now (AddUser uid nm em) s = lift OUser (add_user uid nm em s)"
| "perform lower now (GetUser uid) s = lift OUser (get_user uid s, s)"
| "perform lower now (AddBook bid t a c n) s = lift OBook (add_book bid t a c n s)"
| "perform lower now (UpdateBook bid t a c n) s = lift OBook (update_book bid t a c n s)"
| "perform lower now (DeleteBook bid) s = lift (\<lambda>_. ONone) (delete_book bid s)"
| "perform lower now (SearchBooks t a c) s = (Inr (OBooks (search_books lower t a c s)), s)"
| "perform lower now ListAllBooks s = (Inr (OBooks (list_all_books s)), s)"
| "perform lower now ListAvailableBooks s = (Inr (OBooks (list_available_books s)), s)"
| "perform lower now (BorrowBook uid bid) s = lift ORecord (borrow_book now uid bid s)"
| "perform lower now (ReturnBook rid) s = lift ORecord (return_book now rid s)"
| "perform lower now (ListUserBorrowedBooks uid) s = lift ORecords (list_user_borrowed_books uid s, s)"
| "perform lower now (ListOverdueRecords today) s = (Inr (ORecords (list_overdue_records now today s)), s)"

text \<open>The states of a running library: the fresh one and whatever calls make of it.\<close>

inductive reachable :: "library \<Rightarrow> bool" where
  reachable_init: "reachable library_init"
| reachable_step: "reachable s \<Longrightarrow> reachable (snd (perform lower now c s))"

text \<open>The copy-count invariant of a book, and of every book of the catalogue.\<close>

definition copies_ok :: "book \<Rightarrow> bool" where
  "copies_ok b = (0 \<le> available_copies b \<and> available_copies b \<le> total_copies b)"

definition all_copies_ok :: "library \<Rightarrow> bool" where
  "all_copies_ok s = list_all copies_ok (map snd (books s))"

subsection \<open>Well-formed states\<close>

text \<open>
  Every object sits in its dictionary under its own id, and the record ids are the
  numbers handed out so far: positive, below the counter, in increasing order.
\<close>

definition keys_ok :: "library \<Rightarrow> bool" where
  "keys_ok s =
     (list_all (\<lambda>(k, u). user_id u = k) (users s)
      \<and> list_all (\<lambda>(k, b). book_id b = k) (books s)
      \<and> list_all (\<lambda>(k, r). record_id r = k) (records s))"

definition records_ok :: "library \<Rightarrow> bool" where
  "records_ok s =
     (1 \<le> next_record_id s
      \<and> sorted_wrt (<) (map fst (records s))
      \<and> list_all (\<lambda>k. 1 \<le> k \<and> k < next_record_id s) (map fst (records s)))"

text \<open>The calls of \<^verbatim>\<open>borrow_book\<close>.\<close>

fun is_borrow :: "call \<Rightarrow> bool" where
  "is_borrow (BorrowBook _ _) = True"
| "is_borrow _ = False"

subsection \<open>The search as the specification words it\<close>

text \<open>
  The specification's reading of \<^verbatim>\<open>search_books\<close>, to be compared with the loop
  above. A filter is a case-insensitive substring of a field when some contiguous part
  of the field is the filter up to the case of the letters, that is, has the same
  lowering; an omitted filter admits every field; the result is the books that all
  supplied filters admit, in the order of the catalogue.
\<close>

definition ci_substring :: "(str \<Rightarrow> str) \<Rightarrow> str \<Rightarrow> str \<Rightarrow> bool" where
  "ci_substring lower f field = list_ex (\<lambda>part. lower part = lower f) (sublists field)"

definition admits :: "(str \<Rightarrow> str) \<Rightarrow> str option \<Rightarrow> str \<Rightarrow> bool" where
  "admits lower f field = (case f of None \<Rightarrow> True | Some x \<Rightarrow> ci_substring lower x field)"

definition spec_search ::
  "(str \<Rightarrow> str) \<Rightarrow> str option \<Rightarrow> str option \<Rightarrow> str option \<Rightarrow> library \<Rightarrow> book list" where
  "spec_search lower t a c s =
     filter (\<lambda>b. admits lower t (title b) \<and> admits lower a (author b)
                 \<and> admits lower c (category b))
       (map snd (books s))"

text \<open>
  What the loop does tell of a filter: it is omitted, or empty, or its lowering is a
  contiguous part of the lowering of the field.
\<close>

definition lowered_in :: "(str \<Rightarrow> str) \<Rightarrow> str option \<Rightarrow> str \<Rightarrow> bool" where
  "lowered_in lower f field =
     (case f of None \<Rightarrow> True | Some x \<Rightarrow> x = [] \<or> sublist (lower x) (lower field))"

subsection \<open>Lowering ASCII and Greek text\<close>

text \<open>
  ASCII text is text of code points below 128, and \<^verbatim>\<open>str.lower\<close> maps it character
  by character, \<^verbatim>\<open>A\<close> to \<^verbatim>\<open>Z\<close> onto \<^verbatim>\<open>a\<close> to \<^verbatim>\<open>z\<close>.
\<close>

definition is_ascii :: "str \<Rightarrow> bool" where
  "is_ascii x = list_all (\<lambda>ch. ch < 128) x"

definition ascii_lower :: "nat \<Rightarrow> nat" where
  "ascii_lower ch = (if 65 \<le> ch \<and> ch \<le> 90 then ch + 32 else ch)"

definition ascii :: "string \<Rightarrow> str" where
  "ascii x = map of_char x"

text \<open>
  \<^verbatim>\<open>str.lower\<close> on text of ASCII characters and unaccented Greek letters (U+0391 to
  U+03A9 and U+03B1 to U+03C9). A capital goes to its small letter, 32 code points up,
  except the capital sigma U+03A3: it becomes the final sigma U+03C2 when a cased
  letter comes before it and none after it, case-ignorable characters (the apostrophe,
  the full stop, the colon, the circumflex and the grave accent) skipped on both sides,
  and the sigma U+03C3 otherwise. The first argument of \<open>lower_from\<close> is the text
  already passed, latest character first. The theorems on the library hold for every
  lowering function; this one is for the places that need text to run on.
\<close>

definition cased :: "nat \<Rightarrow> bool" where
  "cased ch =
     ((65 \<le> ch \<and> ch \<le> 90) \<or> (97 \<le> ch \<and> ch \<le> 122)
      \<or> (913 \<le> ch \<and> ch \<le> 937 \<and> ch \<noteq> 930) \<or> (945 \<le> ch \<and> ch \<le> 969))"

definition case_ignorable :: "nat \<Rightarrow> bool" where
  "case_ignorable ch = (ch = 39 \<or> ch = 46 \<or> ch = 58 \<or> ch = 94 \<or> ch = 96)"

definition capital :: "nat \<Rightarrow> bool" where
  "capital ch = ((65 \<le> ch \<and> ch \<le> 90) \<or> (913 \<le> ch \<and> ch \<le> 937 \<and> ch \<noteq> 930))"

definition final_sigma :: "str \<Rightarrow> str \<Rightarrow> bool" where
  "final_sigma before after =
     ((case dropWhile case_ignorable before of [] \<Rightarrow> False | p # _ \<Rightarrow> cased p)
      \<and> (case dropWhile case_ignorable after of [] \<Rightarrow> True | n # _ \<Rightarrow> \<not> cased n))"

definition lower_at :: "str \<Rightarrow> nat \<Rightarrow> str \<Rightarrow> nat" where
  "lower_at before ch after =
     (if ch = 931 then (if final_sigma before after then 962 else 963)
      else if capital ch then ch + 32
      else ch)"

fun lower_from :: "str \<Rightarrow> str \<Rightarrow> str" where
  "lower_from before [] = []"
| "lower_from before (ch # after) = lower_at before ch after # lower_from (ch # before) after"

definition str_lower :: "str \<Rightarrow> str" where
  "str_lower x = lower_from [] x"

subsection \<open>Example states\<close>

text \<open>
  The states of the scenario used to exercise the theorems: one user, Alice, one book,
  \<^verbatim>\<open>1984\<close> with two copies of which \<open>k\<close> are on the shelf, and some loans of that book
  to her, numbered from 1.
\<close>

definition alice :: user where
  "alice = \<lparr>user_id = 1, name = (ascii ''Alice''), email = (ascii ''a@x.com'')\<rparr>"

definition orwell :: "int \<Rightarrow> book" where
  "orwell k = \<lparr>book_id = 100, title = (ascii ''1984''), author = (ascii ''Orwell''), category = (ascii ''Fiction''),
               total_copies = 2, available_copies = k\<rparr>"

definition loan :: "int \<Rightarrow> date \<Rightarrow> date option \<Rightarrow> borrow_record" where
  "loan k d ret = \<lparr>record_id = k, r_user_id = 1, r_book_id = 100, borrow_date = d,
                    due_date = d + 14, return_date = ret\<rparr>"

definition shelf :: "int \<Rightarrow> (int \<times> borrow_record) list \<Rightarrow> library" where
  "shelf k rs = \<lparr>users = [(1, alice)], books = [(100, orwell k)], records = rs,
                  next_record_id = 1 + int (length rs)\<rparr>"

text \<open>
  A catalogue for the search: one book whose title is the Greek capitals omicron,
  delta, omicron, sigma, alpha, and the filter made of the first four of them.
\<close>

definition odos :: str where
  "odos = [927, 916, 927, 931]"

definition odosa :: book where
  "odosa = \<lparr>book_id = 7, title = [927, 916, 927, 931, 913], author = ascii ''Anon'',
             category = ascii ''Maps'', total_copies = 1, available_copies = 1\<rparr>"

definition greek_shelf :: library where
  "greek_shelf = \<lparr>users = [], books = [(7, odosa)], records = [], next_record_id = 1\<rparr>"

section \<open>Properties\<close>

subsection \<open>Association lists and call wrappers\<close>

lemma list_all_update:
  "list_all P (map snd al) \<Longrightarrow> P v \<Longrightarrow> list_all P (map snd (AList.update k v al))"
  by (induction al) auto

lemma list_all_delete:
  "list_all P (map snd al) \<Longrightarrow> list_all P (map snd (AList.delete k al))"
  by (induction al) (auto simp: AList.delete_eq)

lemma list_all_map_of:
  "list_all P (map snd al) \<Longrightarrow> map_of al k = Some v \<Longrightarrow> P v"
  by (induction al) (auto split: if_splits)

lemma snd_lift [simp]: "snd (lift f p) = snd p"
  by (simp add: lift_def)

lemma fst_lift [simp]: "fst (lift f p) = map_sum id f (fst p)"
  by (simp add: lift_def)

subsection \<open>The copy counts stay within bounds\<close>

lemma add_user_copies: "all_copies_ok s \<Longrightarrow> all_copies_ok (snd (add_user uid nm em s))"
  by (simp add: add_user_def all_copies_ok_def Let_def)

lemma add_book_copies: "all_copies_ok s \<Longrightarrow> all_copies_ok (snd (add_book bid t a c n s))"
  by (simp add: add_book_def all_copies_ok_def Let_def list_all_update copies_ok_def)

lemma delete_book_copies: "all_copies_ok s \<Longrightarrow> all_copies_ok (snd (delete_book bid s))"
  by (simp add: delete_book_def all_copies_ok_def list_all_delete)

lemma set_book_copies: "all_copies_ok s \<Longrightarrow> copies_ok b \<Longrightarrow> all_copies_ok (set_book bid b s)"
  by (simp add: set_book_def all_copies_ok_def list_all_update)

lemma books_map_of_ok: "all_copies_ok s \<Longrightarrow> map_of (books s) bid = Some b \<Longrightarrow> copies_ok b"
  unfolding all_copies_ok_def by (rule list_all_map_of)

lemma update_book_copies:
  assumes "all_copies_ok s"
  shows "all_copies_ok (snd (update_book bid t a c n s))"
proof (cases "map_of (books s) bid")
  case None
  then show ?thesis using assms by (simp add: update_book_def)
next
  case (Some b0)
  have ok: "copies_ok b0" using assms Some by (rule books_map_of_ok)
  show ?thesis
    using ok assms Some
    by (auto simp: update_book_def Let_def copies_ok_def intro!: set_book_copies
             split: option.splits)
qed

lemma borrow_book_copies:
  assumes "all_copies_ok s"
  shows "all_copies_ok (snd (borrow_book now uid bid s))"
proof (cases "map_of (books s) bid")
  case None
  then show ?thesis using assms by (simp add: borrow_book_def split: sum.splits)
next
  case (Some b)
  have ok: "copies_ok b" using assms Some by (rule books_map_of_ok)
  have "all_copies_ok (set_book bid (b\<lparr>available_copies := available_copies b - 1\<rparr>) s)"
    if "0 < available_copies b"
    using assms ok that by (intro set_book_copies) (auto simp: copies_ok_def)
  then show ?thesis
    using assms Some
    by (auto simp: borrow_book_def borrow_copy_def is_available_def Let_def all_copies_ok_def
                   set_book_def
             split: sum.splits)
qed

lemma return_book_copies:
  assumes "all_copies_ok s"
  shows "all_copies_ok (snd (return_book now rid s))"
proof -
  have "all_copies_ok (set_book k (b\<lparr>available_copies := available_copies b + 1\<rparr>) s)"
    if "map_of (books s) k = Some b" "available_copies b < total_copies b" for k b
  proof -
    have "copies_ok b" using assms that(1) by (rule books_map_of_ok)
    then show ?thesis using assms that(2) by (intro set_book_copies) (auto simp: copies_ok_def)
  qed
  then show ?thesis
    using assms
    by (auto simp: return_book_def return_copy_def Let_def all_copies_ok_def set_book_def
             split: option.splits sum.splits)
qed

text \<open>
  C1. Whatever public method is called, with whatever arguments and whether it returns
  or raises: if every book of the catalogue has
  \<open>0 \<le> available_copies \<le> total_copies\<close> before the call, every book has it after
  the call. This holds from any state with the invariant, so from every reachable one.
\<close>

theorem copies_invariant_preserved:
  "all_copies_ok s \<Longrightarrow> all_copies_ok (snd (perform lower now c s))"
  by (cases c)
     (simp_all add: add_user_copies add_book_copies update_book_copies delete_book_copies
                    borrow_book_copies return_book_copies)

theorem copies_invariant_preserved_witness:
  "all_copies_ok (shelf 1 [(1, loan 1 738886 None)])
   \<and> all_copies_ok (snd (perform str_lower 738887 (BorrowBook 1 100) (shelf 1 [(1, loan 1 738886 None)])))"
proof -
  have h: "all_copies_ok (shelf 1 [(1, loan 1 738886 None)])"
    by (simp add: all_copies_ok_def shelf_def orwell_def copies_ok_def)
  show ?thesis
    using h copies_invariant_preserved [OF h, of str_lower 738887 "BorrowBook 1 100"] by simp
qed

subsection \<open>Returning twice\<close>

text \<open>
  C3. When the record stored under the id has its \<open>return_date\<close> set, \<open>return_book\<close>
  raises the already-returned failure (kind \<open>AlreadyReturned\<close>) and the state after the
  call is the state before it: no book's count moves and no record changes.
\<close>

theorem return_book_already_returned:
  assumes "map_of (records s) rid = Some r" and "return_date r \<noteq> None"
  shows "return_book now rid s = (Inl RecordAlreadyReturned, s)
         \<and> kind RecordAlreadyReturned = AlreadyReturned"
  using assms by (simp add: return_book_def)

theorem return_book_already_returned_witness:
  "map_of (records (shelf 2 [(1, loan 1 738886 (Some 738890))])) 1
     = Some (loan 1 738886 (Some 738890))
   \<and> return_date (loan 1 738886 (Some 738890)) \<noteq> None
   \<and> return_book 738900 1 (shelf 2 [(1, loan 1 738886 (Some 738890))])
     = (Inl RecordAlreadyReturned, shelf 2 [(1, loan 1 738886 (Some 738890))])"
proof -
  have h1: "map_of (records (shelf 2 [(1, loan 1 738886 (Some 738890))])) 1
              = Some (loan 1 738886 (Some 738890))"
    by (simp add: shelf_def)
  have h2: "return_date (loan 1 738886 (Some 738890)) \<noteq> None"
    by (simp add: loan_def)
  show ?thesis
    using h1 h2 return_book_already_returned [OF h1 h2, of 738900] by simp
qed

subsection \<open>Reachable states are well formed\<close>

lemma reachable_copies_ok: "reachable s \<Longrightarrow> all_copies_ok s"
proof (induction rule: reachable.induct)
  case reachable_init
  show ?case by (simp add: all_copies_ok_def library_init_def)
next
  case (reachable_step s lower now c)
  then show ?case
    by (cases c)
       (simp_all add: add_user_copies add_book_copies update_book_copies delete_book_copies
                      borrow_book_copies return_book_copies)
qed

lemma entries_update:
  "list_all (\<lambda>(k, v). P k v) al \<Longrightarrow> P k v \<Longrightarrow> list_all (\<lambda>(k, v). P k v) (AList.update k v al)"
  by (induction al) auto

lemma entries_delete:
  "list_all (\<lambda>(k, v). P k v) al \<Longrightarrow> list_all (\<lambda>(k, v). P k v) (AList.delete k al)"
  by (induction al) (auto simp: AList.delete_eq)

lemma entries_map_of:
  "list_all (\<lambda>(k, v). P k v) al \<Longrightarrow> map_of al k = Some v \<Longrightarrow> P k v"
  by (induction al) (auto split: if_splits)

lemma map_of_key: "map_of al k = Some v \<Longrightarrow> k \<in> set (map fst al)"
  by (induction al) (auto split: if_splits)

lemma keys_below_fresh:
  "list_all (\<lambda>k. 1 \<le> k \<and> k < (n::int)) ks \<Longrightarrow> n \<notin> set ks"
  by (induction ks) auto

lemma sorted_snoc_fresh:
  "sorted_wrt (<) ks \<Longrightarrow> list_all (\<lambda>k. 1 \<le> k \<and> k < (n::int)) ks \<Longrightarrow> sorted_wrt (<) (ks @ [n])"
  by (auto simp: sorted_wrt_append list_all_iff)

lemma add_user_keys: "keys_ok s \<Longrightarrow> keys_ok (snd (add_user uid nm em s))"
  by (simp add: add_user_def keys_ok_def Let_def entries_update)

lemma add_book_keys: "keys_ok s \<Longrightarrow> keys_ok (snd (add_book bid t a c n s))"
  by (simp add: add_book_def keys_ok_def Let_def entries_update)

lemma delete_book_keys: "keys_ok s \<Longrightarrow> keys_ok (snd (delete_book bid s))"
  by (simp add: delete_book_def keys_ok_def entries_delete)

lemma set_book_keys: "keys_ok s \<Longrightarrow> book_id b = bid \<Longrightarrow> keys_ok (set_book bid b s)"
  by (simp add: set_book_def keys_ok_def entries_update)

lemma books_key: "keys_ok s \<Longrightarrow> map_of (books s) bid = Some b \<Longrightarrow> book_id b = bid"
  unfolding keys_ok_def using entries_map_of [of "\<lambda>k b. book_id b = k" "books s" bid b] by simp

lemma records_key: "keys_ok s \<Longrightarrow> map_of (records s) rid = Some r \<Longrightarrow> record_id r = rid"
  unfolding keys_ok_def using entries_map_of [of "\<lambda>k r. record_id r = k" "records s" rid r] by simp

lemma update_book_keys:
  assumes "keys_ok s"
  shows "keys_ok (snd (update_book bid t a c n s))"
proof (cases "map_of (books s) bid")
  case None
  then show ?thesis using assms by (simp add: update_book_def)
next
  case (Some b0)
  have "book_id b0 = bid" using assms Some by (rule books_key)
  then show ?thesis
    using assms Some
    by (auto simp: update_book_def Let_def intro!: set_book_keys split: option.splits)
qed

lemma borrow_book_keys:
  assumes "keys_ok s"
  shows "keys_ok (snd (borrow_book now uid bid s))"
proof (cases "map_of (books s) bid")
  case None
  then show ?thesis using assms by (simp add: borrow_book_def split: sum.splits)
next
  case (Some b)
  have "book_id b = bid" using assms Some by (rule books_key)
  then show ?thesis
    using assms Some
    by (auto simp: borrow_book_def borrow_copy_def is_available_def Let_def keys_ok_def
                   set_book_def entries_update
             split: sum.splits)
qed

lemma return_book_keys:
  assumes "keys_ok s"
  shows "keys_ok (snd (return_book now rid s))"
proof (cases "map_of (records s) rid")
  case None
  then show ?thesis using assms by (simp add: return_book_def)
next
  case (Some r)
  have rk: "record_id r = rid" using assms Some by (rule records_key)
  show ?thesis
  proof (cases "map_of (books s) (r_book_id r)")
    case None
    then show ?thesis using assms Some by (simp add: return_book_def)
  next
    case b: (Some b)
    have "book_id b = r_book_id r" using assms b by (rule books_key)
    then show ?thesis
      using assms Some b rk
      by (auto simp: return_book_def return_copy_def Let_def keys_ok_def set_book_def
                     mark_returned_def entries_update)
  qed
qed

lemma perform_keys_ok: "keys_ok s \<Longrightarrow> keys_ok (snd (perform lower now c s))"
  by (cases c)
     (simp_all add: add_user_keys add_book_keys update_book_keys delete_book_keys
                    borrow_book_keys return_book_keys)

lemma reachable_keys_ok: "reachable s \<Longrightarrow> keys_ok s"
proof (induction rule: reachable.induct)
  case reachable_init
  show ?case by (simp add: keys_ok_def library_init_def)
next
  case (reachable_step s lower now c)
  then show ?case by (simp add: perform_keys_ok)
qed

lemma records_ok_other:
  "records_ok s \<Longrightarrow> records s' = records s \<Longrightarrow> next_record_id s' = next_record_id s
     \<Longrightarrow> records_ok s'"
  by (simp add: records_ok_def)

lemma borrow_book_records:
  assumes "records_ok s"
  shows "records_ok (snd (borrow_book now uid bid s))"
proof -
  let ?ks = "map fst (records s)"
  have fresh: "next_record_id s \<notin> set ?ks"
    using assms unfolding records_ok_def by (blast dest: keys_below_fresh)
  have keys: "map fst (AList.update (next_record_id s) r (records s)) = ?ks @ [next_record_id s]"
    for r
    using fresh by (simp add: update_keys)
  have srt: "sorted_wrt (<) (?ks @ [next_record_id s])"
    using assms unfolding records_ok_def by (blast intro: sorted_snoc_fresh)
  have bnd: "list_all (\<lambda>k. 1 \<le> k \<and> k < next_record_id s + 1) (?ks @ [next_record_id s])"
    using assms unfolding records_ok_def by (auto simp: list_all_iff)
  show ?thesis
    using assms keys srt bnd
    by (auto simp: borrow_book_def get_user_def borrow_copy_def is_available_def Let_def
                   set_book_def records_ok_def
             split: option.splits sum.splits simp del: list_all_append)
qed

lemma return_book_records:
  assumes "records_ok s"
  shows "records_ok (snd (return_book now rid s))"
proof (cases "map_of (records s) rid")
  case None
  then show ?thesis using assms by (simp add: return_book_def)
next
  case (Some r)
  then have "rid \<in> set (map fst (records s))" by (rule map_of_key)
  then have keys: "map fst (AList.update rid r' (records s)) = map fst (records s)" for r'
    by (simp add: update_keys)
  show ?thesis
    using assms Some keys
    by (auto simp: return_book_def return_copy_def Let_def set_book_def records_ok_def
             split: option.splits)
qed

lemma perform_records_ok: "records_ok s \<Longrightarrow> records_ok (snd (perform lower now c s))"
proof (cases c)
  case (BorrowBook uid bid)
  assume "records_ok s"
  then show ?thesis using BorrowBook by (simp add: borrow_book_records)
next
  case (ReturnBook rid)
  assume "records_ok s"
  then show ?thesis using ReturnBook by (simp add: return_book_records)
qed (auto simp: add_user_def add_book_def update_book_def delete_book_def set_book_def Let_def
          split: option.splits intro: records_ok_other)

lemma reachable_records_ok: "reachable s \<Longrightarrow> records_ok s"
proof (induction rule: reachable.induct)
  case reachable_init
  show ?case by (simp add: records_ok_def library_init_def)
next
  case (reachable_step s lower now c)
  then show ?case by (simp add: perform_records_ok)
qed

lemma perform_counter:
  "next_record_id (snd (perform lower now c s))
     = (if is_borrow c \<and> \<not> isl (fst (perform lower now c s))
        then next_record_id s + 1 else next_record_id s)"
  by (cases c)
     (auto simp: add_user_def add_book_def update_book_def delete_book_def
                 set_book_def borrow_book_def return_book_def get_user_def Let_def
           split: option.splits sum.splits)


lemma records_key_below:
  assumes "records_ok s" "map_of (records s) rid = Some r"
  shows "1 \<le> rid \<and> rid < next_record_id s"
proof -
  have "rid \<in> set (map fst (records s))" using assms(2) by (rule map_of_key)
  then show ?thesis using assms(1) unfolding records_ok_def list_all_iff by blast
qed

lemma borrow_then_return:
  assumes u: "map_of (users s) uid = Some u"
    and b: "map_of (books s) bid = Some b"
    and k: "book_id b = bid"
    and pos: "0 < available_copies b"
    and le: "available_copies b \<le> total_copies b"
  shows "\<exists>r s1 r' s2.
           borrow_book now uid bid s = (Inr r, s1)
         \<and> return_book now' (record_id r) s1 = (Inr r', s2)
         \<and> return_date r' = Some now'
         \<and> map_of (books s1) bid = Some (b\<lparr>available_copies := available_copies b - 1\<rparr>)
         \<and> map_of (books s2) bid = Some b
         \<and> books s2 = books s"
proof -
  have triv: "AList.update bid b (books s) = books s"
    using b by (rule update_triv)
  show ?thesis
    using assms triv
    by (simp add: borrow_book_def get_user_def is_available_def borrow_copy_def set_book_def
                  LOAN_DAYS_def Let_def return_book_def return_copy_def mark_returned_def
                  or_today_def update_conv')
qed

text \<open>The example states are reachable.\<close>

lemma reachable_shelf2: "reachable (shelf 2 [])"
proof -
  have "reachable (snd (perform str_lower 738886 (AddBook 100 (ascii ''1984'') (ascii ''Orwell'') (ascii ''Fiction'') 2)
          (snd (perform str_lower 738886 (AddUser 1 (ascii ''Alice'') (ascii ''a@x.com'')) library_init))))"
    by (intro reachable.intros)
  then show ?thesis
    by (simp add: library_init_def add_user_def add_book_def shelf_def alice_def orwell_def
                  Let_def)
qed

lemma reachable_shelf1: "reachable (shelf 1 [(1, loan 1 738886 None)])"
proof -
  have "reachable (snd (perform str_lower 738886 (BorrowBook 1 100) (shelf 2 [])))"
    using reachable_shelf2 by (rule reachable_step)
  then show ?thesis
    by (simp add: borrow_book_def get_user_def is_available_def borrow_copy_def set_book_def
                  LOAN_DAYS_def shelf_def alice_def orwell_def loan_def Let_def)
qed

subsection \<open>Borrowing and giving back\<close>

text \<open>
  C4. In every reachable state where the user and the book exist and a copy is on the
  shelf, \<open>borrow_book\<close> returns a record, \<open>return_book\<close> on that record's id right
  afterwards succeeds too, and the book is then exactly as it was before the borrow; in
  particular \<open>available_copies\<close>, one lower in between, is back at its old value.
\<close>

theorem borrow_return_round_trip:
  assumes "reachable s"
    and "map_of (users s) uid = Some u"
    and "map_of (books s) bid = Some b"
    and "0 < available_copies b"
  shows "\<exists>r s1 r' s2.
           borrow_book now uid bid s = (Inr r, s1)
         \<and> return_book now' (record_id r) s1 = (Inr r', s2)
         \<and> return_date r' = Some now'
         \<and> map_of (books s1) bid = Some (b\<lparr>available_copies := available_copies b - 1\<rparr>)
         \<and> map_of (books s2) bid = Some b
         \<and> books s2 = books s"
proof -
  have "keys_ok s" using assms(1) by (rule reachable_keys_ok)
  then have k: "book_id b = bid" using assms(3) by (rule books_key)
  have "all_copies_ok s" using assms(1) by (rule reachable_copies_ok)
  then have "copies_ok b" using assms(3) by (rule books_map_of_ok)
  then have le: "available_copies b \<le> total_copies b" by (simp add: copies_ok_def)
  show ?thesis using assms(2,3) k assms(4) le by (rule borrow_then_return)
qed

theorem borrow_return_round_trip_witness:
  "reachable (shelf 1 [(1, loan 1 738886 None)])
   \<and> map_of (users (shelf 1 [(1, loan 1 738886 None)])) 1 = Some alice
   \<and> map_of (books (shelf 1 [(1, loan 1 738886 None)])) 100 = Some (orwell 1)
   \<and> 0 < available_copies (orwell 1)
   \<and> (\<exists>r s1 r' s2.
           borrow_book 738887 1 100 (shelf 1 [(1, loan 1 738886 None)]) = (Inr r, s1)
         \<and> return_book 738890 (record_id r) s1 = (Inr r', s2)
         \<and> return_date r' = Some 738890
         \<and> map_of (books s1) 100 = Some (orwell 0)
         \<and> map_of (books s2) 100 = Some (orwell 1)
         \<and> books s2 = books (shelf 1 [(1, loan 1 738886 None)]))"
proof -
  have h1: "reachable (shelf 1 [(1, loan 1 738886 None)])" by (rule reachable_shelf1)
  have h2: "map_of (users (shelf 1 [(1, loan 1 738886 None)])) 1 = Some alice"
    by (simp add: shelf_def)
  have h3: "map_of (books (shelf 1 [(1, loan 1 738886 None)])) 100 = Some (orwell 1)"
    by (simp add: shelf_def)
  have h4: "0 < available_copies (orwell 1)" by (simp add: orwell_def)
  have e: "(orwell 1)\<lparr>available_copies := available_copies (orwell 1) - 1\<rparr> = orwell 0"
    by (simp add: orwell_def)
  show ?thesis
    using h1 h2 h3 h4 borrow_return_round_trip [OF h1 h2 h3 h4, of 738887 738890]
    unfolding e by blast
qed

text \<open>
  C5. \<open>borrow_book\<close> checks in this order. An absent user id: the user-not-found
  failure (kind \<open>NotFound\<close>), state unchanged. Else an absent book id: the
  book-not-found failure (kind \<open>NotFound\<close>), state unchanged. Else no copy on the
  shelf: the not-available failure (kind \<open>Unavailable\<close>), state unchanged, so no record
  is stored and the counter stays. Otherwise the book's \<open>available_copies\<close> goes down by
  one, a record with the counter's value as id, \<open>borrow_date = now\<close>,
  \<open>due_date = now + 14\<close> and no return date is stored under that id and returned, and the
  counter goes up by one.
\<close>

theorem borrow_book_spec:
  "(map_of (users s) uid = None \<longrightarrow>
      borrow_book now uid bid s = (Inl (UserNotFound uid), s) \<and> kind (UserNotFound uid) = NotFound)
   \<and> (map_of (users s) uid \<noteq> None \<and> map_of (books s) bid = None \<longrightarrow>
      borrow_book now uid bid s = (Inl (BookNotFound bid), s) \<and> kind (BookNotFound bid) = NotFound)
   \<and> (\<forall>b. map_of (users s) uid \<noteq> None \<and> map_of (books s) bid = Some b
            \<and> available_copies b \<le> 0 \<longrightarrow>
      borrow_book now uid bid s = (Inl (BookNotAvailable (title b)), s)
      \<and> kind (BookNotAvailable (title b)) = Unavailable)
   \<and> (\<forall>u b. map_of (users s) uid = Some u \<and> map_of (books s) bid = Some b
            \<and> 0 < available_copies b \<longrightarrow>
      borrow_book now uid bid s =
        (Inr \<lparr>record_id = next_record_id s, r_user_id = user_id u, r_book_id = book_id b,
              borrow_date = now, due_date = now + 14, return_date = None\<rparr>,
         s\<lparr>books := AList.update bid (b\<lparr>available_copies := available_copies b - 1\<rparr>) (books s),
           records := AList.update (next_record_id s)
              \<lparr>record_id = next_record_id s, r_user_id = user_id u, r_book_id = book_id b,
               borrow_date = now, due_date = now + 14, return_date = None\<rparr> (records s),
           next_record_id := next_record_id s + 1\<rparr>))"
  by (auto simp: borrow_book_def get_user_def is_available_def borrow_copy_def set_book_def
                 LOAN_DAYS_def Let_def
           split: option.splits)

theorem borrow_book_spec_witness:
  "borrow_book 738886 7 100 (shelf 2 []) = (Inl (UserNotFound 7), shelf 2 [])
   \<and> borrow_book 738886 1 5 (shelf 2 []) = (Inl (BookNotFound 5), shelf 2 [])
   \<and> borrow_book 738886 1 100 (shelf 0 [(1, loan 1 738880 None), (2, loan 2 738881 None)])
       = (Inl (BookNotAvailable (ascii ''1984'')),
          shelf 0 [(1, loan 1 738880 None), (2, loan 2 738881 None)])
   \<and> borrow_book 738886 1 100 (shelf 2 [])
       = (Inr (loan 1 738886 None), shelf 1 [(1, loan 1 738886 None)])"
proof -
  have a: "map_of (users (shelf 2 [])) 7 = None"
    by (simp add: shelf_def)
  have b: "map_of (users (shelf 2 [])) 1 \<noteq> None \<and> map_of (books (shelf 2 [])) 5 = None"
    by (simp add: shelf_def)
  have c: "map_of (users (shelf 0 [(1, loan 1 738880 None), (2, loan 2 738881 None)])) 1 \<noteq> None
           \<and> map_of (books (shelf 0 [(1, loan 1 738880 None), (2, loan 2 738881 None)])) 100
               = Some (orwell 0)
           \<and> available_copies (orwell 0) \<le> 0"
    by (simp add: shelf_def orwell_def)
  have d: "map_of (users (shelf 2 [])) 1 = Some alice
           \<and> map_of (books (shelf 2 [])) 100 = Some (orwell 2)
           \<and> 0 < available_copies (orwell 2)"
    by (simp add: shelf_def orwell_def)
  have 1: "borrow_book 738886 7 100 (shelf 2 []) = (Inl (UserNotFound 7), shelf 2 [])"
    using a borrow_book_spec [of "shelf 2 []" 7 738886 100] by blast
  have 2: "borrow_book 738886 1 5 (shelf 2 []) = (Inl (BookNotFound 5), shelf 2 [])"
    using b borrow_book_spec [of "shelf 2 []" 1 738886 5] by blast
  have 3: "borrow_book 738886 1 100 (shelf 0 [(1, loan 1 738880 None), (2, loan 2 738881 None)])
       = (Inl (BookNotAvailable (title (orwell 0))),
          shelf 0 [(1, loan 1 738880 None), (2, loan 2 738881 None)])"
    using c borrow_book_spec
      [of "shelf 0 [(1, loan 1 738880 None), (2, loan 2 738881 None)]" 1 738886 100]
    by blast
  have 4: "borrow_book 738886 1 100 (shelf 2 [])
       = (Inr (loan 1 738886 None), shelf 1 [(1, loan 1 738886 None)])"
    using d borrow_book_spec [of "shelf 2 []" 1 738886 100]
    by (simp add: shelf_def orwell_def loan_def alice_def)
  from 1 2 3 4 show ?thesis by (simp add: orwell_def)
qed


subsection \<open>Editing a book\<close>

text \<open>
  C6. \<open>update_book\<close> on an absent id raises the book-not-found failure (kind
  \<open>NotFound\<close>) and leaves the state alone. On a present book \<open>b\<close>, let \<open>e\<close> be \<open>b\<close> with
  each of title, author and category replaced where one was supplied and kept where
  none was. With no \<open>total_copies\<close> supplied the catalogue holds \<open>e\<close> under the id
  afterwards, its two counts untouched, and \<open>e\<close> is returned. With \<open>m\<close> supplied and
  \<open>m\<close> below \<open>total_copies - available_copies\<close> of \<open>b\<close> the call raises the failure of
  kind \<open>InvalidArgument\<close>. Otherwise the catalogue holds under the id, and the call
  returns, \<open>e\<close> with \<open>total_copies\<close> set to \<open>m\<close> and \<open>available_copies\<close> set to the old
  value plus \<open>m\<close> minus the old total, or to 0 if that is negative. Nothing else in the
  state changes.
\<close>

theorem update_book_spec:
  fixes b :: book and t a c :: "str option"
  defines "e \<equiv> b\<lparr>title := (case t of None \<Rightarrow> title b | Some x \<Rightarrow> x),
                  author := (case a of None \<Rightarrow> author b | Some x \<Rightarrow> x),
                  category := (case c of None \<Rightarrow> category b | Some x \<Rightarrow> x)\<rparr>"
  shows
  "(map_of (books s) bid = None \<longrightarrow>
      update_book bid t a c n s = (Inl (BookNotFound bid), s) \<and> kind (BookNotFound bid) = NotFound)
   \<and> (map_of (books s) bid = Some b \<longrightarrow>
        (n = None \<longrightarrow>
            update_book bid t a c n s = (Inr e, s\<lparr>books := AList.update bid e (books s)\<rparr>)
            \<and> map_of (books (snd (update_book bid t a c n s))) bid = Some e)
      \<and> (\<forall>m. n = Some m \<and> m < total_copies b - available_copies b \<longrightarrow>
            update_book bid t a c n s
              = (Inl TotalLessThanBorrowed, s\<lparr>books := AList.update bid e (books s)\<rparr>)
            \<and> kind TotalLessThanBorrowed = InvalidArgument)
      \<and> (\<forall>m. n = Some m \<and> \<not> m < total_copies b - available_copies b \<longrightarrow>
            update_book bid t a c n s =
              (Inr (e\<lparr>total_copies := m,
                      available_copies := max 0 (available_copies b + (m - total_copies b))\<rparr>),
               s\<lparr>books := AList.update bid
                 (e\<lparr>total_copies := m,
                    available_copies := max 0 (available_copies b + (m - total_copies b))\<rparr>)
                 (books s)\<rparr>)
            \<and> map_of (books (snd (update_book bid t a c n s))) bid
                = Some (e\<lparr>total_copies := m,
                          available_copies := max 0 (available_copies b + (m - total_copies b))\<rparr>)))"
  unfolding e_def
  by (auto simp: update_book_def set_book_def Let_def max_def update_conv' split: option.splits)

theorem update_book_spec_witness:
  "update_book 5 None None None None (shelf 1 [(1, loan 1 738886 None)])
     = (Inl (BookNotFound 5), shelf 1 [(1, loan 1 738886 None)])
   \<and> update_book 100 (Some (ascii ''Animal Farm'')) None None None
        (shelf 1 [(1, loan 1 738886 None)])
     = (Inr ((orwell 1)\<lparr>title := ascii ''Animal Farm''\<rparr>),
        \<lparr>users = [(1, alice)],
         books = [(100, (orwell 1)\<lparr>title := ascii ''Animal Farm''\<rparr>)],
         records = [(1, loan 1 738886 None)], next_record_id = 2\<rparr>)
   \<and> fst (update_book 100 None None None (Some 0) (shelf 1 [(1, loan 1 738886 None)]))
     = Inl TotalLessThanBorrowed
   \<and> update_book 100 None None None (Some 5) (shelf 1 [(1, loan 1 738886 None)])
     = (Inr ((orwell 4)\<lparr>total_copies := 5\<rparr>),
        \<lparr>users = [(1, alice)],
         books = [(100, (orwell 4)\<lparr>total_copies := 5\<rparr>)],
         records = [(1, loan 1 738886 None)], next_record_id = 2\<rparr>)
   \<and> map_of (books (snd (update_book 100 None None None (Some 5)
                            (shelf 1 [(1, loan 1 738886 None)])))) 100
     = Some ((orwell 4)\<lparr>total_copies := 5\<rparr>)"
proof -
  let ?s = "shelf 1 [(1, loan 1 738886 None)]"
  have a: "map_of (books ?s) 5 = None"
    by (simp add: shelf_def)
  have b: "map_of (books ?s) 100 = Some (orwell 1)"
    by (simp add: shelf_def)
  have c: "(0::int) < total_copies (orwell 1) - available_copies (orwell 1)"
    by (simp add: orwell_def)
  have d: "\<not> (5::int) < total_copies (orwell 1) - available_copies (orwell 1)"
    by (simp add: orwell_def)
  have 1: "update_book 5 None None None None ?s = (Inl (BookNotFound 5), ?s)"
    using a update_book_spec [of ?s 5 None None None None] by blast
  have 2: "update_book 100 (Some (ascii ''Animal Farm'')) None None None ?s
     = (Inr ((orwell 1)\<lparr>title := ascii ''Animal Farm''\<rparr>),
        \<lparr>users = [(1, alice)],
         books = [(100, (orwell 1)\<lparr>title := ascii ''Animal Farm''\<rparr>)],
         records = [(1, loan 1 738886 None)], next_record_id = 2\<rparr>)"
    using b update_book_spec [of ?s 100 "Some (ascii ''Animal Farm'')" None None None "orwell 1"]
    by (simp add: orwell_def shelf_def)
  have 3: "fst (update_book 100 None None None (Some 0) ?s) = Inl TotalLessThanBorrowed"
    using b c update_book_spec [of ?s 100 None None None "Some 0" "orwell 1"]
    by simp
  have 4: "update_book 100 None None None (Some 5) ?s
     = (Inr ((orwell 4)\<lparr>total_copies := 5\<rparr>),
        \<lparr>users = [(1, alice)],
         books = [(100, (orwell 4)\<lparr>total_copies := 5\<rparr>)],
         records = [(1, loan 1 738886 None)], next_record_id = 2\<rparr>)
     \<and> map_of (books (snd (update_book 100 None None None (Some 5) ?s))) 100
         = Some ((orwell 4)\<lparr>total_copies := 5\<rparr>)"
    using b d update_book_spec [of ?s 100 None None None "Some 5" "orwell 1"]
    by (simp add: orwell_def shelf_def)
  from 1 2 3 4 show ?thesis by blast
qed

subsection \<open>Overdue loans\<close>

text \<open>
  C9. \<open>is_overdue\<close> is false for a record whose \<open>return_date\<close> is set, whatever the
  reference date; for an open record it is true exactly when the reference date (the
  clock, when none is given) is after \<open>due_date\<close>. \<open>list_overdue_records\<close> returns the
  stored records, in their order, for which \<open>is_overdue\<close> holds at that reference
  date, and no others.
\<close>

theorem overdue_spec:
  "is_overdue now (Some d) r = (return_date r = None \<and> d > due_date r)
   \<and> is_overdue now None r = (return_date r = None \<and> now > due_date r)
   \<and> list_overdue_records now ref s = filter (is_overdue now ref) (map snd (records s))
   \<and> set (list_overdue_records now ref s)
       = {x. x \<in> snd ` set (records s) \<and> return_date x = None \<and> or_today now ref > due_date x}"
proof -
  have 1: "is_overdue now (Some d) r = (return_date r = None \<and> d > due_date r)"
    by (simp add: is_overdue_def or_today_def)
  have 2: "is_overdue now None r = (return_date r = None \<and> now > due_date r)"
    by (simp add: is_overdue_def or_today_def)
  have 3: "list_overdue_records now ref s = filter (is_overdue now ref) (map snd (records s))"
    by (simp add: list_overdue_records_def)
  have 4: "set (list_overdue_records now ref s)
       = {x. x \<in> snd ` set (records s) \<and> return_date x = None \<and> or_today now ref > due_date x}"
    unfolding 3 by (auto simp: is_overdue_def)
  from 1 2 3 4 show ?thesis by blast
qed

theorem overdue_spec_witness:
  "list_overdue_records 738886 (Some 738901) (shelf 1 [(1, loan 1 738886 None)])
     = [loan 1 738886 None]
   \<and> list_overdue_records 738886 (Some 738887) (shelf 1 [(1, loan 1 738886 None)]) = []
   \<and> is_overdue 738901 None (loan 1 738886 None)
   \<and> \<not> is_overdue 738901 None (loan 1 738886 (Some 738890))"
proof -
  let ?s = "shelf 1 [(1, loan 1 738886 None)]"
  have 1: "list_overdue_records 738886 (Some 738901) ?s = [loan 1 738886 None]"
    using overdue_spec [of 738886 738901 "loan 1 738886 None" "Some 738901" ?s]
    by (simp add: shelf_def loan_def)
  have 2: "list_overdue_records 738886 (Some 738887) ?s = []"
    using overdue_spec [of 738886 738887 "loan 1 738886 None" "Some 738887" ?s]
    by (simp add: shelf_def loan_def)
  have 3: "is_overdue 738901 None (loan 1 738886 None)"
    using overdue_spec [of 738901 0 "loan 1 738886 None" None ?s]
    by (simp add: loan_def)
  have 4: "\<not> is_overdue 738901 None (loan 1 738886 (Some 738890))"
    using overdue_spec [of 738901 0 "loan 1 738886 (Some 738890)" None ?s]
    by (simp add: loan_def)
  from 1 2 3 4 show ?thesis by blast
qed

subsection \<open>The record-id counter\<close>

text \<open>No call removes a record, and a new record is numbered by the counter.\<close>

lemma keys_update_mono: "x \<in> fst ` set al \<Longrightarrow> x \<in> fst ` set (AList.update k v al)"
  by (induction al) auto

lemma perform_keeps_records:
  "set (map fst (records s)) \<subseteq> set (map fst (records (snd (perform lower now c s))))"
  by (cases c)
     (auto simp: add_user_def add_book_def update_book_def delete_book_def
                 set_book_def borrow_book_def return_book_def get_user_def Let_def
           split: option.splits sum.splits intro: keys_update_mono [OF imageI, simplified])

lemma borrow_book_record_id:
  "fst (borrow_book now uid bid s) = Inr r \<Longrightarrow> record_id r = next_record_id s"
  by (auto simp: borrow_book_def get_user_def set_book_def Let_def
           split: option.splits sum.splits if_splits)

lemma entries_conj:
  "list_all (\<lambda>(k, r). P k r) al \<Longrightarrow> list_all Q (map fst al)
     \<Longrightarrow> list_all (\<lambda>(k, r). P k r \<and> Q k) al"
  by (induction al) auto

text \<open>
  C7. The counter of a fresh library is 1. A call leaves the counter alone unless it is
  a \<open>borrow_book\<close> that returns, which raises it by one; so it never goes down, and
  failed calls and deletions do not move it. No call removes a record id from the
  store. In every reachable state the stored record ids are in strictly increasing
  order of insertion, hence distinct, each record carries the id it is stored under,
  every id is at least 1 and below the counter, and the record a \<open>borrow_book\<close>
  returns has the counter's value as id, which no stored record has.
\<close>

theorem record_id_counter:
  "next_record_id library_init = 1
   \<and> next_record_id (snd (perform lower now c s))
       = (if is_borrow c \<and> \<not> isl (fst (perform lower now c s))
          then next_record_id s + 1 else next_record_id s)
   \<and> set (map fst (records s)) \<subseteq> set (map fst (records (snd (perform lower now c s))))
   \<and> (reachable s \<longrightarrow>
         sorted_wrt (<) (map fst (records s))
       \<and> distinct (map fst (records s))
       \<and> list_all (\<lambda>(k, r). record_id r = k \<and> 1 \<le> k \<and> k < next_record_id s) (records s)
       \<and> (\<forall>uid bid r. fst (borrow_book now uid bid s) = Inr r \<longrightarrow>
             record_id r = next_record_id s \<and> record_id r \<notin> set (map fst (records s))))"
proof -
  have 1: "next_record_id library_init = 1"
    by (simp add: library_init_def)
  have 4: "sorted_wrt (<) (map fst (records s))
       \<and> distinct (map fst (records s))
       \<and> list_all (\<lambda>(k, r). record_id r = k \<and> 1 \<le> k \<and> k < next_record_id s) (records s)
       \<and> (\<forall>uid bid r. fst (borrow_book now uid bid s) = Inr r \<longrightarrow>
             record_id r = next_record_id s \<and> record_id r \<notin> set (map fst (records s)))"
    if r: "reachable s"
  proof -
    have ro: "records_ok s" using r by (rule reachable_records_ok)
    have ko: "keys_ok s" using r by (rule reachable_keys_ok)
    have srt: "sorted_wrt (<) (map fst (records s))"
      using ro by (simp add: records_ok_def)
    have bnd: "list_all (\<lambda>k. 1 \<le> k \<and> k < next_record_id s) (map fst (records s))"
      using ro by (simp add: records_ok_def)
    have dst: "distinct (map fst (records s))"
      using srt by (simp add: strict_sorted_iff)
    have ent: "list_all (\<lambda>(k, r). record_id r = k \<and> 1 \<le> k \<and> k < next_record_id s) (records s)"
      using ko bnd entries_conj [of "\<lambda>k r. record_id r = k" "records s"
                                   "\<lambda>k. 1 \<le> k \<and> k < next_record_id s"]
      by (simp add: keys_ok_def)
    have fresh: "next_record_id s \<notin> set (map fst (records s))"
      using bnd by (rule keys_below_fresh)
    have new: "\<forall>uid bid r. fst (borrow_book now uid bid s) = Inr r \<longrightarrow>
             record_id r = next_record_id s \<and> record_id r \<notin> set (map fst (records s))"
      using fresh borrow_book_record_id [of now _ _ s] by metis
    show ?thesis
      using srt dst ent new by blast
  qed
  show ?thesis
    using 1 perform_counter [of lower now c s] perform_keeps_records [of s lower now c] 4 by blast
qed

theorem record_id_counter_witness:
  "reachable (shelf 1 [(1, loan 1 738886 None)])
   \<and> next_record_id (shelf 1 [(1, loan 1 738886 None)]) = 2
   \<and> next_record_id (snd (perform str_lower 738887 (BorrowBook 1 100) (shelf 1 [(1, loan 1 738886 None)]))) = 3
   \<and> distinct (map fst (records (shelf 1 [(1, loan 1 738886 None)])))
   \<and> list_all (\<lambda>(k, r). record_id r = k \<and> 1 \<le> k \<and> k < 2) (records (shelf 1 [(1, loan 1 738886 None)]))
   \<and> fst (borrow_book 738887 1 100 (shelf 1 [(1, loan 1 738886 None)])) = Inr (loan 2 738887 None)
   \<and> record_id (loan 2 738887 None) = 2
   \<and> record_id (loan 2 738887 None) \<notin> set (map fst (records (shelf 1 [(1, loan 1 738886 None)])))"
proof -
  let ?s = "shelf 1 [(1, loan 1 738886 None)]"
  have h: "reachable ?s" by (rule reachable_shelf1)
  have n: "next_record_id ?s = 2" by (simp add: shelf_def)
  have b: "fst (borrow_book 738887 1 100 ?s) = Inr (loan 2 738887 None)"
    by (simp add: borrow_book_def get_user_def is_available_def borrow_copy_def set_book_def
                  LOAN_DAYS_def shelf_def alice_def orwell_def loan_def Let_def)
  have ok: "is_borrow (BorrowBook 1 100) \<and> \<not> isl (fst (perform str_lower 738887 (BorrowBook 1 100) ?s))"
    using b by simp
  have new: "record_id (loan 2 738887 None) = next_record_id ?s
             \<and> record_id (loan 2 738887 None) \<notin> set (map fst (records ?s))"
    using h b record_id_counter [of str_lower 738887 "BorrowBook 1 100" ?s] by blast
  show ?thesis
    using h n b ok new record_id_counter [of str_lower 738887 "BorrowBook 1 100" ?s]
    by simp
qed

subsection \<open>Returning a loan of a book whose id was given to another book\<close>

text \<open>
  C10. \<open>return_book\<close> looks the book up by the record's book id in the catalogue as it
  is at the time of the return. Take a reachable state with an open record \<open>r\<close> whose
  book is in the catalogue, delete that book and add another one under the same id
  with \<open>n > 0\<close> copies. Returning \<open>r\<close> now does not raise the no-longer-exists failure:
  the lookup finds the new book, all of whose copies are on the shelf, so
  \<open>return_copy\<close> raises (kind \<open>InvariantViolation\<close>) and nothing changes. Once a user
  has borrowed a copy of the new book, returning the old record \<open>r\<close> succeeds: it puts
  the new book's \<open>available_copies\<close> back up by one and closes \<open>r\<close>.
\<close>

theorem return_book_after_replacement:
  fixes r :: borrow_record and t a c :: str and n :: int
  defines "bid \<equiv> r_book_id r"
  defines "nb \<equiv> \<lparr>book_id = r_book_id r, title = t, author = a, category = c,
                  total_copies = n, available_copies = n\<rparr>"
  defines "r' \<equiv> \<lambda>d. r\<lparr>return_date := Some d\<rparr>"
  assumes reach: "reachable s"
    and rec: "map_of (records s) rid = Some r"
    and opn: "return_date r = None"
    and old: "map_of (books s) (r_book_id r) \<noteq> None"
    and usr: "map_of (users s) uid \<noteq> None"
    and pos: "0 < n"
  shows "(let s1 = snd (add_book bid t a c n (snd (delete_book bid s)));
              s2 = snd (borrow_book now uid bid s1)
          in map_of (books s1) bid = Some nb
           \<and> return_book now' rid s1 = (Inl (AllCopiesInLibrary t), s1)
           \<and> kind (AllCopiesInLibrary t) = InvariantViolation
           \<and> map_of (books s2) bid = Some (nb\<lparr>available_copies := n - 1\<rparr>)
           \<and> return_book now' rid s2
               = (Inr (r' now'),
                  s2\<lparr>books := AList.update bid nb (books s2),
                     records := AList.update rid (r' now') (records s2)\<rparr>))"
proof -
  have "records_ok s" using reach by (rule reachable_records_ok)
  then have "rid < next_record_id s" using rec by (blast dest: records_key_below)
  then have ne: "rid \<noteq> next_record_id s" by simp
  show ?thesis
    using rec opn old usr pos ne
    unfolding bid_def nb_def r'_def
    by (auto simp: Let_def add_book_def delete_book_def delete_conv' update_conv'
                   return_book_def return_copy_def borrow_book_def get_user_def
                   is_available_def borrow_copy_def set_book_def mark_returned_def or_today_def)
qed


theorem return_book_after_replacement_witness:
  "reachable (shelf 1 [(1, loan 1 738886 None)])
   \<and> map_of (records (shelf 1 [(1, loan 1 738886 None)])) 1 = Some (loan 1 738886 None)
   \<and> return_date (loan 1 738886 None) = None
   \<and> map_of (books (shelf 1 [(1, loan 1 738886 None)])) (r_book_id (loan 1 738886 None)) \<noteq> None
   \<and> map_of (users (shelf 1 [(1, loan 1 738886 None)])) 1 \<noteq> None
   \<and> (0::int) < 3
   \<and> (let s1 = snd (add_book 100 (ascii ''Emma'') (ascii ''Austen'') (ascii ''Novel'') 3
                     (snd (delete_book 100 (shelf 1 [(1, loan 1 738886 None)]))));
          s2 = snd (borrow_book 738890 1 100 s1)
      in map_of (books s1) 100
           = Some \<lparr>book_id = 100, title = (ascii ''Emma''), author = (ascii ''Austen''), category = (ascii ''Novel''),
                   total_copies = 3, available_copies = 3\<rparr>
       \<and> return_book 738895 1 s1 = (Inl (AllCopiesInLibrary (ascii ''Emma'')), s1)
       \<and> map_of (books s2) 100
           = Some \<lparr>book_id = 100, title = (ascii ''Emma''), author = (ascii ''Austen''), category = (ascii ''Novel''),
                   total_copies = 3, available_copies = 2\<rparr>
       \<and> fst (return_book 738895 1 s2) = Inr (loan 1 738886 (Some 738895))
       \<and> map_of (books (snd (return_book 738895 1 s2))) 100
           = Some \<lparr>book_id = 100, title = (ascii ''Emma''), author = (ascii ''Austen''), category = (ascii ''Novel''),
                   total_copies = 3, available_copies = 3\<rparr>)"
proof -
  let ?s = "shelf 1 [(1, loan 1 738886 None)]"
  have h1: "reachable ?s" by (rule reachable_shelf1)
  have h2: "map_of (records ?s) 1 = Some (loan 1 738886 None)"
    by (simp add: shelf_def)
  have h3: "return_date (loan 1 738886 None) = None"
    by (simp add: loan_def)
  have h4: "map_of (books ?s) (r_book_id (loan 1 738886 None)) \<noteq> None"
    by (simp add: shelf_def loan_def)
  have h5: "map_of (users ?s) 1 \<noteq> None"
    by (simp add: shelf_def)
  have h6: "(0::int) < 3" by simp
  have k: "r_book_id (loan 1 738886 None) = 100"
    by (simp add: loan_def)
  have c: "(loan 1 738886 None)\<lparr>return_date := Some 738895\<rparr> = loan 1 738886 (Some 738895)"
    by (simp add: loan_def)
  show ?thesis
    using h1 h2 h3 h4 h5 h6
      return_book_after_replacement [OF h1 h2 h3 h4 h5 h6,
        of "(ascii ''Emma'')" "(ascii ''Austen'')" "(ascii ''Novel'')" 738890 738895]
    unfolding k c
    by (simp add: Let_def update_conv')
qed

subsection \<open>The loop of the search is a filter\<close>

lemma rejects_iff: "rejects lower f field = (\<not> lowered_in lower f field)"
  by (cases f) (simp_all add: rejects_def lowered_in_def)

lemma search_loop_filter:
  "search_loop lower t a c bs acc
     = acc @ filter (\<lambda>b. lowered_in lower t (title b) \<and> lowered_in lower a (author b)
                          \<and> lowered_in lower c (category b)) bs"
  by (induction bs arbitrary: acc) (simp_all add: rejects_iff)

subsection \<open>Lowering and case-insensitive parts\<close>

lemma lower_from_ascii: "is_ascii x \<Longrightarrow> lower_from before x = map ascii_lower x"
  by (induction x arbitrary: before)
     (auto simp: is_ascii_def lower_at_def capital_def ascii_lower_def)

lemma str_lower_ascii: "is_ascii x \<Longrightarrow> str_lower x = map ascii_lower x"
  by (simp add: str_lower_def lower_from_ascii)

lemma is_ascii_sublist: "sublist part field \<Longrightarrow> is_ascii field \<Longrightarrow> is_ascii part"
  by (auto simp: is_ascii_def list_all_iff sublist_def)

lemma ci_substring_ascii:
  assumes low: "\<forall>y. is_ascii y \<longrightarrow> lower y = map ascii_lower y"
    and x: "is_ascii x" and fld: "is_ascii field"
  shows "ci_substring lower x field = sublist (lower x) (lower field)"
proof
  assume "ci_substring lower x field"
  then obtain part where p: "sublist part field" "lower part = lower x"
    by (auto simp: ci_substring_def list_ex_iff)
  have "is_ascii part" using p(1) fld by (rule is_ascii_sublist)
  then have eq: "map ascii_lower part = lower x" using low p(2) by simp
  from p(1) obtain ps ss where "field = ps @ part @ ss"
    by (auto simp: sublist_def)
  then have "map ascii_lower field = map ascii_lower ps @ lower x @ map ascii_lower ss"
    using eq by simp
  then have "sublist (lower x) (map ascii_lower field)"
    by simp
  then show "sublist (lower x) (lower field)"
    using low fld by simp
next
  assume "sublist (lower x) (lower field)"
  then have "sublist (lower x) (map ascii_lower field)"
    using low fld by simp
  then obtain part where p: "sublist part field" "lower x = map ascii_lower part"
    by (blast dest: sublist_map_rightE)
  have "is_ascii part" using p(1) fld by (rule is_ascii_sublist)
  then have "lower part = lower x" using low p(2) by simp
  then show "ci_substring lower x field"
    using p(1) by (auto simp: ci_substring_def list_ex_iff)
qed

lemma ci_substring_empty: "ci_substring lower [] field"
  by (auto simp: ci_substring_def list_ex_iff)

lemma lowered_in_admits:
  assumes "\<forall>y. is_ascii y \<longrightarrow> lower y = map ascii_lower y"
    and "\<forall>x\<in>set_option f. is_ascii x" and "is_ascii field"
  shows "lowered_in lower f field = admits lower f field"
proof (cases f)
  case None
  then show ?thesis by (simp add: lowered_in_def admits_def)
next
  case (Some x)
  then have x: "is_ascii x" using assms(2) by simp
  show ?thesis
  proof (cases "x = []")
    case True
    then show ?thesis using Some by (simp add: lowered_in_def admits_def ci_substring_empty)
  next
    case False
    then show ?thesis
      using Some ci_substring_ascii [OF assms(1) x assms(3)]
      by (simp add: lowered_in_def admits_def)
  qed
qed

text \<open>The catalogue with one Greek title is reachable.\<close>

lemma reachable_greek_shelf: "reachable greek_shelf"
proof -
  have "reachable (snd (perform str_lower 738886
          (AddBook 7 [927, 916, 927, 931, 913] (ascii ''Anon'') (ascii ''Maps'') 1) library_init))"
    by (intro reachable.intros)
  then show ?thesis
    by (simp add: library_init_def add_book_def greek_shelf_def odosa_def Let_def)
qed

subsection \<open>Searching\<close>

text \<open>
  C8, as the claim has it, fails. The catalogue holds one book, titled with the five
  Greek capitals omicron, delta, omicron, sigma, alpha, and the title filter is its
  first four letters. The filter is a contiguous part of the title as it stands, so the
  title is admitted whatever the case, and the specification's search returns the book.
  \<^verbatim>\<open>str.lower\<close> ends the filter in a final sigma and puts a plain sigma in the
  title, so the lowered filter is no part of the lowered title and \<open>search_books\<close>
  returns nothing.
\<close>

theorem search_books_final_sigma:
  "reachable greek_shelf
   \<and> sublist odos (title odosa)
   \<and> str_lower odos = [959, 948, 959, 962]
   \<and> str_lower (title odosa) = [959, 948, 959, 963, 945]
   \<and> spec_search str_lower (Some odos) None None greek_shelf = [odosa]
   \<and> search_books str_lower (Some odos) None None greek_shelf = []
   \<and> perform str_lower 738886 (SearchBooks (Some odos) None None) greek_shelf
       \<noteq> (Inr (OBooks (spec_search str_lower (Some odos) None None greek_shelf)), greek_shelf)"
proof -
  have 1: "sublist odos (title odosa)"
    by code_simp
  have 2: "str_lower odos = [959, 948, 959, 962]"
    by code_simp
  have 3: "str_lower (title odosa) = [959, 948, 959, 963, 945]"
    by code_simp
  have 4: "spec_search str_lower (Some odos) None None greek_shelf = [odosa]"
    by code_simp
  have 5: "search_books str_lower (Some odos) None None greek_shelf = []"
    by code_simp
  show ?thesis
    using reachable_greek_shelf 1 2 3 4 5 by simp
qed

text \<open>
  C8, amended. For every lowering function, \<open>search_books\<close> always returns a list and
  leaves the state as it is, and the list is the books of the catalogue, in insertion
  order, for which the lowering of every supplied non-empty filter is a contiguous part
  of the lowering of its field; an omitted or empty filter excludes nothing, and the
  list is empty when no book qualifies. When the lowering is the one of ASCII on ASCII
  text, as \<^verbatim>\<open>str.lower\<close> is, and the filters and the three fields of every book are
  ASCII, this is the list of the specification: the books for which every supplied
  filter is a case-insensitive substring of its field.
\<close>

theorem search_books_lowered:
  "perform lower now (SearchBooks t a c) s
     = (Inr (OBooks (filter (\<lambda>b. lowered_in lower t (title b) \<and> lowered_in lower a (author b)
                                  \<and> lowered_in lower c (category b)) (map snd (books s)))), s)
   \<and> search_books lower t a c s
     = filter (\<lambda>b. lowered_in lower t (title b) \<and> lowered_in lower a (author b)
                  \<and> lowered_in lower c (category b)) (map snd (books s))
   \<and> ((\<forall>y. is_ascii y \<longrightarrow> lower y = map ascii_lower y)
        \<and> (\<forall>x\<in>set_option t \<union> set_option a \<union> set_option c. is_ascii x)
        \<and> (\<forall>b\<in>set (map snd (books s)).
              is_ascii (title b) \<and> is_ascii (author b) \<and> is_ascii (category b))
      \<longrightarrow> search_books lower t a c s = spec_search lower t a c s)"
proof -
  have loop: "search_books lower t a c s
     = filter (\<lambda>b. lowered_in lower t (title b) \<and> lowered_in lower a (author b)
                  \<and> lowered_in lower c (category b)) (map snd (books s))"
    by (simp add: search_books_def search_loop_filter)
  have spec: "search_books lower t a c s = spec_search lower t a c s"
    if low: "\<forall>y. is_ascii y \<longrightarrow> lower y = map ascii_lower y"
      and flt: "\<forall>x\<in>set_option t \<union> set_option a \<union> set_option c. is_ascii x"
      and cat: "\<forall>b\<in>set (map snd (books s)).
                  is_ascii (title b) \<and> is_ascii (author b) \<and> is_ascii (category b)"
  proof -
    have "lowered_in lower t (title b) = admits lower t (title b)
        \<and> lowered_in lower a (author b) = admits lower a (author b)
        \<and> lowered_in lower c (category b) = admits lower c (category b)"
      if "b \<in> set (map snd (books s))" for b
    proof -
      have fields: "is_ascii (title b)" "is_ascii (author b)" "is_ascii (category b)"
        using that cat by blast+
      have filters: "\<forall>x\<in>set_option t. is_ascii x" "\<forall>x\<in>set_option a. is_ascii x"
        "\<forall>x\<in>set_option c. is_ascii x"
        using flt by blast+
      show ?thesis
        using lowered_in_admits [OF low filters(1) fields(1)]
          lowered_in_admits [OF low filters(2) fields(2)]
          lowered_in_admits [OF low filters(3) fields(3)]
        by blast
    qed
    then show ?thesis
      unfolding loop spec_search_def by (intro filter_cong) auto
  qed
  show ?thesis
    using loop spec by simp
qed

theorem search_books_lowered_witness:
  "search_books str_lower None (Some (ascii ''ORW'')) (Some []) (shelf 2 []) = [orwell 2]
   \<and> spec_search str_lower None (Some (ascii ''ORW'')) (Some []) (shelf 2 []) = [orwell 2]
   \<and> search_books str_lower (Some (ascii ''19'')) (Some (ascii ''Huxley'')) None (shelf 2 []) = []
   \<and> perform str_lower 738886 (SearchBooks None None (Some (ascii ''fic''))) (shelf 2 [])
       = (Inr (OBooks [orwell 2]), shelf 2 [])"
proof -
  have low: "\<forall>y. is_ascii y \<longrightarrow> str_lower y = map ascii_lower y"
    by (simp add: str_lower_ascii)
  have cat: "\<forall>b\<in>set (map snd (books (shelf 2 []))).
               is_ascii (title b) \<and> is_ascii (author b) \<and> is_ascii (category b)"
    by code_simp
  have f1: "\<forall>x\<in>set_option None \<union> set_option (Some (ascii ''ORW'')) \<union> set_option (Some []).
              is_ascii x"
    by code_simp
  have e1: "spec_search str_lower None (Some (ascii ''ORW'')) (Some []) (shelf 2 []) = [orwell 2]"
    by code_simp
  have "search_books str_lower None (Some (ascii ''ORW'')) (Some []) (shelf 2 [])
          = spec_search str_lower None (Some (ascii ''ORW'')) (Some []) (shelf 2 [])"
    using low f1 cat
      search_books_lowered [of str_lower 738886 None "Some (ascii ''ORW'')" "Some []" "shelf 2 []"]
    by blast
  then have 1:
    "search_books str_lower None (Some (ascii ''ORW'')) (Some []) (shelf 2 []) = [orwell 2]"
    using e1 by simp
  have e2: "filter (\<lambda>b. lowered_in str_lower (Some (ascii ''19'')) (title b)
                      \<and> lowered_in str_lower (Some (ascii ''Huxley'')) (author b)
                      \<and> lowered_in str_lower None (category b)) (map snd (books (shelf 2 []))) = []"
    by code_simp
  have 2: "search_books str_lower (Some (ascii ''19'')) (Some (ascii ''Huxley'')) None (shelf 2 [])
             = []"
    using e2
      search_books_lowered [of str_lower 738886 "Some (ascii ''19'')" "Some (ascii ''Huxley'')"
                               None "shelf 2 []"]
    by simp
  have e3: "filter (\<lambda>b. lowered_in str_lower None (title b)
                      \<and> lowered_in str_lower None (author b)
                      \<and> lowered_in str_lower (Some (ascii ''fic'')) (category b))
              (map snd (books (shelf 2 []))) = [orwell 2]"
    by code_simp
  have 3: "perform str_lower 738886 (SearchBooks None None (Some (ascii ''fic''))) (shelf 2 [])
       = (Inr (OBooks [orwell 2]), shelf 2 [])"
    using e3
      search_books_lowered [of str_lower 738886 None None "Some (ascii ''fic'')" "shelf 2 []"]
    by simp
  from 1 e1 2 3 show ?thesis by blast
qed

subsection \<open>Failures and the state\<close>

text \<open>
  A call that raises leaves the state as it was, with one exception: the failure of
  \<open>update_book\<close> for a total below the borrowed count, which is raised after the title,
  author and category supplied in the same call have been assigned.
\<close>

lemma set_book_same: "map_of (books s) bid = Some b \<Longrightarrow> set_book bid b s = s"
  by (simp add: set_book_def update_triv)

lemma failure_keeps_state:
  assumes "fst (perform lower now c s) = Inl e"
    and "e \<noteq> TotalLessThanBorrowed"
  shows "snd (perform lower now c s) = s"
  using assms
  by (cases c)
     (auto simp: add_user_def add_book_def update_book_def delete_book_def
                 borrow_book_def return_book_def get_user_def Let_def
           split: option.splits sum.splits if_splits)

lemma update_book_counts_only_failure:
  assumes "fst (update_book bid None None None n s) = Inl e"
  shows "snd (update_book bid None None None n s) = s"
  using assms
  by (auto simp: update_book_def Let_def set_book_same split: option.splits if_splits)

lemma reachable_shelf0:
  "reachable (shelf 0 [(1, loan 1 738886 None), (2, loan 2 738887 None)])"
proof -
  have "reachable (snd (perform str_lower 738887 (BorrowBook 1 100) (shelf 1 [(1, loan 1 738886 None)])))"
    using reachable_shelf1 by (rule reachable_step)
  then show ?thesis
    by (simp add: borrow_book_def get_user_def is_available_def borrow_copy_def set_book_def
                  LOAN_DAYS_def shelf_def alice_def orwell_def loan_def Let_def)
qed

text \<open>
  C2. The state with both copies of \<^verbatim>\<open>1984\<close> on loan is reachable. There,
  \<open>update_book\<close> with a new title and a total of 1 raises the failure of kind
  \<open>InvalidArgument\<close>, and the stored book has the new title afterwards: the state after
  the failed call is not the state before it.
\<close>

theorem update_book_failure_mutates:
  "reachable (shelf 0 [(1, loan 1 738886 None), (2, loan 2 738887 None)])
   \<and> update_book 100 (Some (ascii ''Animal Farm'')) None None (Some 1)
       (shelf 0 [(1, loan 1 738886 None), (2, loan 2 738887 None)])
     = (Inl TotalLessThanBorrowed,
        \<lparr>users = [(1, alice)],
         books = [(100, (orwell 0)\<lparr>title := (ascii ''Animal Farm'')\<rparr>)],
         records = [(1, loan 1 738886 None), (2, loan 2 738887 None)],
         next_record_id = 3\<rparr>)
   \<and> snd (update_book 100 (Some (ascii ''Animal Farm'')) None None (Some 1)
            (shelf 0 [(1, loan 1 738886 None), (2, loan 2 738887 None)]))
       \<noteq> shelf 0 [(1, loan 1 738886 None), (2, loan 2 738887 None)]"
  using reachable_shelf0
  by (simp add: update_book_def set_book_def shelf_def orwell_def Let_def ascii_def)

end
